theory Spec2Isabelle
  imports Complex_Main
begin

section \<open>JavaScript values and strings\<close>

text \<open>
  The backend of the importer is an Express server written in JavaScript. A string is
  modelled as the list of its code units, for code units below 256. The values the
  handlers read out of plain objects are text, \<open>undefined\<close>, \<open>null\<close>, or a member that
  a plain object inherits from \<open>Object.prototype\<close> (\<open>Native name\<close>).
\<close>

datatype jsval = Undefined | Null | Str string | Native string

datatype js_exception = TypeError | FetchRejected

text \<open>The own property names of \<open>Object.prototype\<close>; every plain object inherits them.\<close>

definition object_prototype_keys :: "string list" where
  "object_prototype_keys =
     [''constructor'', ''__defineGetter__'', ''__defineSetter__'', ''hasOwnProperty'',
      ''__lookupGetter__'', ''__lookupSetter__'', ''isPrototypeOf'',
      ''propertyIsEnumerable'', ''toString'', ''valueOf'', ''__proto__'',
      ''toLocaleString'']"

text \<open>
  \<open>String(value)\<close> of an inherited member: the prototype object itself prints as
  \<open>[object Object]\<close>, a built-in function as its native source text.
\<close>

definition native_text :: "string \<Rightarrow> string" where
  "native_text name =
     (if name = ''__proto__'' then ''[object Object]''
      else ''function '' @ (if name = ''constructor'' then ''Object'' else name)
           @ ''() { [native code] }'')"

text \<open>Truthiness, as \<open>!value\<close>, \<open>value || other\<close> and \<open>filter(Boolean)\<close> use it.\<close>

fun truthy :: "jsval \<Rightarrow> bool" where
  "truthy Undefined = False"
| "truthy Null = False"
| "truthy (Str s) = (s \<noteq> [])"
| "truthy (Native n) = True"

text \<open>White space and line terminators that \<open>String.prototype.trim\<close> removes.\<close>

definition is_space :: "char \<Rightarrow> bool" where
  "is_space c = (c \<in> set [CHR 0x09, CHR 0x0A, CHR 0x0B, CHR 0x0C, CHR 0x0D, CHR 0x20, CHR 0xA0])"

definition trim :: "string \<Rightarrow> string" where
  "trim s = rev (dropWhile is_space (rev (dropWhile is_space s)))"

definition is_digit :: "char \<Rightarrow> bool" where
  "is_digit c = (48 \<le> (of_char c :: nat) \<and> (of_char c :: nat) \<le> 57)"

definition digit_value :: "char \<Rightarrow> int" where
  "digit_value c = of_char c - 48"

definition digits_value :: "string \<Rightarrow> int" where
  "digits_value s = foldl (\<lambda>a c. 10 * a + digit_value c) 0 s"

text \<open>\<open>s.replace(',', '.')\<close> with a string pattern replaces the first occurrence only.\<close>

fun replace_first :: "char \<Rightarrow> char \<Rightarrow> string \<Rightarrow> string" where
  "replace_first a b [] = []"
| "replace_first a b (c # cs) = (if c = a then b # cs else c # replace_first a b cs)"

fun join :: "string \<Rightarrow> string list \<Rightarrow> string" where
  "join sep [] = []"
| "join sep [x] = x"
| "join sep (x # y # ys) = x @ sep @ join sep (y # ys)"

section \<open>Amount normalizer\<close>

text \<open>
  \<^verbatim>\<open>
  function normalizeCellValue(value) {
    if (value === undefined || value === null) { return ''; }
    return String(value).trim();
  }
  \<close>
\<close>

fun normalizeCellValue :: "jsval \<Rightarrow> string" where
  "normalizeCellValue Undefined = []"
| "normalizeCellValue Null = []"
| "normalizeCellValue (Str s) = trim s"
| "normalizeCellValue (Native n) = trim (native_text n)"

text \<open>
  A JavaScript number. \<open>Fin v\<close> stands for the double nearest to the decimal value
  \<open>v\<close>; the rounding itself is not modelled, only its overflow to infinity.
\<close>

datatype number = NaN | Infinite | Fin rat

text \<open>
  \<open>Number(text)\<close> on the alphabet that \<open>parseAmount\<close> leaves in the text (digits,
  \<open>.\<close> and \<open>-\<close>): the empty string is 0; otherwise an optional sign followed by
  digits with at most one point and at least one digit; anything else is NaN. A
  decimal of magnitude \<open>2^1024 - 2^970\<close> or more rounds to infinity.
\<close>

definition unsigned_decimal :: "string \<Rightarrow> rat option" where
  "unsigned_decimal u =
     (let ip = takeWhile is_digit u; rest = dropWhile is_digit u in
      case rest of
        [] \<Rightarrow> (if ip = [] then None else Some (of_int (digits_value ip)))
      | d # fp \<Rightarrow>
          (if d = CHR ''.'' \<and> list_all is_digit fp \<and> \<not> (ip = [] \<and> fp = [])
           then Some (of_int (digits_value ip) + of_int (digits_value fp) / 10 ^ length fp)
           else None))"

definition round_overflow :: "rat \<Rightarrow> number" where
  "round_overflow v = (if 2 ^ 1024 - 2 ^ 970 \<le> \<bar>v\<bar> then Infinite else Fin v)"

definition Number :: "string \<Rightarrow> number" where
  "Number s =
     (case s of
        [] \<Rightarrow> Fin 0
      | c # cs \<Rightarrow>
          (if c = CHR ''-''
           then (case unsigned_decimal cs of None \<Rightarrow> NaN | Some v \<Rightarrow> round_overflow (- v))
           else (case unsigned_decimal s of None \<Rightarrow> NaN | Some v \<Rightarrow> round_overflow v)))"

text \<open>
  \<^verbatim>\<open>
  function parseAmount(rawValue) {
    const text = normalizeCellValue(rawValue);
    if (!text) { return null; }
    const normalized = text.replace(/\./g, '').replace(',', '.').replace(/[^\d.-]/g, '');
    const number = Number(normalized);
    return Number.isFinite(number) ? number : null;
  }
  \<close>
\<close>

definition normalized_amount_text :: "string \<Rightarrow> string" where
  "normalized_amount_text text =
     filter (\<lambda>c. is_digit c \<or> c = CHR ''.'' \<or> c = CHR ''-'')
       (replace_first (CHR '','') (CHR ''.'') (filter (\<lambda>c. c \<noteq> CHR ''.'') text))"

definition parseAmount :: "jsval \<Rightarrow> rat option" where
  "parseAmount rawValue =
     (let text = normalizeCellValue rawValue in
      if text = [] then None
      else (case Number (normalized_amount_text text) of
              Fin v \<Rightarrow> Some v
            | _ \<Rightarrow> None))"

section \<open>Plain objects\<close>

text \<open>
  A plain object is the list of its own properties in creation order. Reading a
  property finds the own one first and, failing that, the member inherited from
  \<open>Object.prototype\<close>; anything else reads as \<open>undefined\<close>.
\<close>

type_synonym 'a obj = "(string \<times> 'a) list"

type_synonym row = "string obj"

definition get_prop :: "string obj \<Rightarrow> string \<Rightarrow> jsval" where
  "get_prop ob k =
     (case map_of ob k of
        Some s \<Rightarrow> Str s
      | None \<Rightarrow> (if k \<in> set object_prototype_keys then Native k else Undefined))"

text \<open>
  \<open>ob[k] = v\<close> for a text \<open>v\<close>: an own property keeps its place, a new one goes last.
  The key \<open>__proto__\<close> reaches the inherited setter, which ignores a value that is
  not an object.
\<close>

fun put_own :: "'a obj \<Rightarrow> string \<Rightarrow> 'a \<Rightarrow> 'a obj" where
  "put_own [] k v = [(k, v)]"
| "put_own ((k', v') # ob) k v = (if k' = k then (k, v) # ob else (k', v') # put_own ob k v)"

definition set_prop :: "string obj \<Rightarrow> string \<Rightarrow> string \<Rightarrow> string obj" where
  "set_prop ob k v = (if k = ''__proto__'' then ob else put_own ob k v)"

text \<open>
  \<open>Object.entries\<close> lists the own properties whose key is an array index (the
  canonical decimal text of an integer up to \<open>2^32 - 2\<close>) first, in ascending numeric
  order, and then the other properties in creation order.
\<close>

definition is_array_index :: "string \<Rightarrow> bool" where
  "is_array_index k =
     (k \<noteq> [] \<and> list_all is_digit k \<and> (k = ''0'' \<or> hd k \<noteq> CHR ''0'')
      \<and> digits_value k \<le> 4294967294)"

definition Object_entries :: "'a obj \<Rightarrow> 'a obj" where
  "Object_entries ob =
     sort_key (\<lambda>p. digits_value (fst p)) (filter (\<lambda>p. is_array_index (fst p)) ob)
     @ filter (\<lambda>p. \<not> is_array_index (fst p)) ob"

section \<open>Field mapper\<close>

text \<open>
  A mapping rule is the loosely typed object the frontend builds:
  \<open>{type, column, columns, separator}\<close>. An absent or \<open>null\<close> separator is \<open>None\<close>.
  A mapping configuration is an object from target-field name to rule; a property
  holding \<open>null\<close> is \<open>None\<close>.
\<close>

record rule =
  rule_type :: string
  column :: string
  columns :: "string list"
  separator :: "string option"

type_synonym mapping_config = "rule option obj"

text \<open>
  \<^verbatim>\<open>
  for (const [targetField, rule] of Object.entries(mapping || {})) {
    if (!rule) { mappedRow[targetField] = ''; continue; }
    if (rule.type === 'merge') {
      const separator = rule.separator ?? ' ';
      const values = (rule.columns || [])
        .map((column) => normalizeCellValue(row[column]))
        .filter(Boolean);
      mappedRow[targetField] = values.join(separator);
    } else {
      mappedRow[targetField] = normalizeCellValue(row[rule.column]);
    }
  }
  \<close>
\<close>

definition apply_rule :: "row \<Rightarrow> rule option \<Rightarrow> string" where
  "apply_rule r ru =
     (case ru of
        None \<Rightarrow> []
      | Some rl \<Rightarrow>
          (if rule_type rl = ''merge''
           then join (case separator rl of None \<Rightarrow> '' '' | Some sp \<Rightarrow> sp)
                  (filter (\<lambda>v. v \<noteq> [])
                     (map (\<lambda>c. normalizeCellValue (get_prop r c)) (columns rl)))
           else normalizeCellValue (get_prop r (column rl))))"

fun map_fields :: "row \<Rightarrow> (string \<times> rule option) list \<Rightarrow> string obj \<Rightarrow> string obj" where
  "map_fields r [] mappedRow = mappedRow"
| "map_fields r ((targetField, ru) # es) mappedRow =
     map_fields r es (set_prop mappedRow targetField (apply_rule r ru))"

definition mapRow :: "row \<Rightarrow> mapping_config option \<Rightarrow> string obj" where
  "mapRow r m = map_fields r (Object_entries (case m of None \<Rightarrow> [] | Some ob \<Rightarrow> ob)) []"

definition mapRows :: "row list \<Rightarrow> mapping_config option \<Rightarrow> string obj list" where
  "mapRows rs m = map (\<lambda>r. mapRow r m) rs"

text \<open>
  The frontend maps the rows of its preview with a function of its own, which walks
  over the four target fields:
  \<^verbatim>\<open>
  const TARGET_FIELDS = [{ key: 'date', ... }, { key: 'amount', ... },
                         { key: 'payee', ... }, { key: 'notes', ... }];
  function applyMapping(rows, mapping) {
    return rows.map((row) => {
      const mapped = {};
      for (const field of TARGET_FIELDS) {
        const rule = mapping[field.key];
        if (!rule) { mapped[field.key] = ''; continue; }
        if (rule.type === 'merge') {
          mapped[field.key] = (rule.columns || [])
            .map((column) => (row[column] ?? '').toString().trim())
            .filter(Boolean)
            .join(rule.separator ?? ' ');
        } else {
          mapped[field.key] = (row[rule.column] ?? '').toString().trim();
        }
      }
      return mapped;
    });
  }
  \<close>
  On the values a plain object gives, \<open>(value ?? '').toString().trim()\<close> is
  \<open>normalizeCellValue(value)\<close>. None of the four keys is a member of
  \<open>Object.prototype\<close>, so \<open>mapping[field.key]\<close> is the own property or \<open>undefined\<close>.
\<close>

definition TARGET_FIELDS :: "string list" where
  "TARGET_FIELDS = [''date'', ''amount'', ''payee'', ''notes'']"

definition applyMapping :: "row list \<Rightarrow> mapping_config \<Rightarrow> string obj list" where
  "applyMapping rs m =
     map (\<lambda>r. map (\<lambda>k. (k, apply_rule r (case map_of m k of None \<Rightarrow> None | Some ru \<Rightarrow> ru)))
               TARGET_FIELDS) rs"

section \<open>Grouping engine\<close>

text \<open>
  \<^verbatim>\<open>
  function groupRows(rows, groupByColumn) {
    if (!groupByColumn) { return { all: rows }; }
    return rows.reduce((acc, row) => {
      const groupKey = normalizeCellValue(row[groupByColumn]) || '(leeg)';
      if (!acc[groupKey]) { acc[groupKey] = []; }
      acc[groupKey].push(row);
      return acc;
    }, {});
  }
  \<close>
  The accumulator is a plain object. Reading \<open>acc[groupKey]\<close> for a key that is no own
  property but a member of \<open>Object.prototype\<close> gives that member, which is truthy and
  has no \<open>push\<close>: the call raises a TypeError.
\<close>

definition group_key :: "string \<Rightarrow> row \<Rightarrow> string" where
  "group_key groupByColumn r =
     (let v = normalizeCellValue (get_prop r groupByColumn) in
      if v = [] then ''(leeg)'' else v)"

definition add_row :: "string \<Rightarrow> row list obj \<Rightarrow> row \<Rightarrow> js_exception + row list obj" where
  "add_row groupByColumn acc r =
     (let groupKey = group_key groupByColumn r in
      case map_of acc groupKey of
        Some members \<Rightarrow> Inr (put_own acc groupKey (members @ [r]))
      | None \<Rightarrow>
          (if groupKey \<in> set object_prototype_keys then Inl TypeError
           else Inr (put_own acc groupKey [r])))"

fun reduce_rows :: "string \<Rightarrow> row list obj \<Rightarrow> row list \<Rightarrow> js_exception + row list obj" where
  "reduce_rows groupByColumn acc [] = Inr acc"
| "reduce_rows groupByColumn acc (r # rs) =
     (case add_row groupByColumn acc r of
        Inl e \<Rightarrow> Inl e
      | Inr acc' \<Rightarrow> reduce_rows groupByColumn acc' rs)"

definition groupRows :: "row list \<Rightarrow> string option \<Rightarrow> js_exception + row list obj" where
  "groupRows rs groupByColumn =
     (case groupByColumn of
        None \<Rightarrow> Inr [(''all'', rs)]
      | Some c \<Rightarrow> (if c = [] then Inr [(''all'', rs)] else reduce_rows c [] rs))"

section \<open>Import orchestrator\<close>

text \<open>
  The handler of \<open>POST /api/import\<close>. Its inputs are the request body, the process
  environment and the ledger server behind \<open>fetch\<close>; its results are the HTTP answer
  and the requests sent to the ledger server, in order.

  The fields of the request body have the types the specification gives them: the rows
  are objects with text values, \<open>dryRun\<close> is a boolean, the account mapping an object
  with text values, the connection settings are texts. A field that is absent or
  \<open>null\<close> is \<open>None\<close>; for \<open>rows\<close>, \<open>None\<close> also stands for a value that is not an
  array; for \<open>dryRun\<close>, \<open>None\<close> is the absent field only, since the default of the
  destructuring applies to \<open>undefined\<close> and not to \<open>null\<close>.
\<close>

record transaction =
  date :: jsval
  payee :: jsval
  tx_notes :: jsval
  amount :: "rat option"

record group_result =
  group :: string
  accountId :: jsval
  transactionCount :: nat
  invalidCount :: nat
  preview :: "transaction list"

record import_result =
  result_dryRun :: bool
  groups :: "group_result list"
  totalTransactions :: nat
  totalInvalid :: nat

record actual_config =
  serverUrl :: "string option"
  password :: "string option"
  budgetId :: "string option"

record request =
  rows :: "row list option"
  mapping :: "mapping_config option"
  groupByColumn :: "string option"
  accountMapping :: "string obj option"
  dryRun :: "bool option"
  actualConfig :: "actual_config option"

record environment =
  MOCK_ACTUAL :: "string option"
  ACTUAL_SERVER_URL :: "string option"
  ACTUAL_PASSWORD :: "string option"
  ACTUAL_BUDGET_ID :: "string option"

text \<open>One \<open>fetch\<close> of the ledger's transaction-import endpoint: the URL and the JSON body.\<close>

record ledger_call =
  call_url :: string
  call_password :: string
  call_budgetId :: string
  call_accountId :: jsval
  call_transactions :: "transaction list"

text \<open>
  What a \<open>fetch\<close> gives: a response with \<open>ok\<close> set, a response without it (with the
  text of its body), or a rejected promise when the server cannot be reached. The
  ledger server answers a call knowing the calls made before it.
\<close>

datatype fetch_result = ResponseOk | ResponseNotOk string | Rejected

type_synonym ledger = "ledger_call list \<Rightarrow> ledger_call \<Rightarrow> fetch_result"

text \<open>
  The handler answers with a JSON body under status 200, 400 or 502, or it ends on an
  exception that nothing catches and sends no answer of its own.
\<close>

datatype outcome =
    Json200 import_result
  | Json400 string
  | Json502 string string
  | Uncaught js_exception

text \<open>\<open>accountMapping?.[group] || null\<close>\<close>

definition resolve_account :: "string obj option \<Rightarrow> string \<Rightarrow> jsval" where
  "resolve_account am g =
     (case am of
        None \<Rightarrow> Null
      | Some ob \<Rightarrow> (let v = get_prop ob g in if truthy v then v else Null))"

text \<open>
  \<^verbatim>\<open>
  const normalized = mappedRows.map((row) => ({
    date: row.date, payee: row.payee, notes: row.notes, amount: parseAmount(row.amount)
  }));
  \<close>
\<close>

definition normalize :: "string obj \<Rightarrow> transaction" where
  "normalize r =
     \<lparr>date = get_prop r ''date'', payee = get_prop r ''payee'',
      tx_notes = get_prop r ''notes'',
      amount = parseAmount (get_prop r ''amount'')\<rparr>"

definition normalized_group :: "request \<Rightarrow> row list \<Rightarrow> transaction list" where
  "normalized_group req groupRowsData = map normalize (mapRows groupRowsData (mapping req))"

text \<open>\<open>row.amount === null || !row.date\<close> and \<open>row.amount !== null && row.date\<close>\<close>

definition is_invalid :: "transaction \<Rightarrow> bool" where
  "is_invalid t = (amount t = None \<or> \<not> truthy (date t))"

definition passes_validation :: "transaction \<Rightarrow> bool" where
  "passes_validation t = (amount t \<noteq> None \<and> truthy (date t))"

definition make_group_result :: "request \<Rightarrow> string \<Rightarrow> row list \<Rightarrow> group_result" where
  "make_group_result req g groupRowsData =
     (let normalized = normalized_group req groupRowsData in
      \<lparr>group = g, accountId = resolve_account (accountMapping req) g,
       transactionCount = length normalized,
       invalidCount = length (filter is_invalid normalized),
       preview = take 5 normalized\<rparr>)"

text \<open>\<open>a || b || ''\<close> on two optional texts.\<close>

definition first_text :: "string option \<Rightarrow> string option \<Rightarrow> string" where
  "first_text a b =
     (case a of
        Some s \<Rightarrow> (if s \<noteq> [] then s else (case b of Some t \<Rightarrow> t | None \<Rightarrow> []))
      | None \<Rightarrow> (case b of Some t \<Rightarrow> t | None \<Rightarrow> []))"

definition config_field :: "actual_config option \<Rightarrow> (actual_config \<Rightarrow> string option) \<Rightarrow> string option" where
  "config_field cfg f = (case cfg of None \<Rightarrow> None | Some c \<Rightarrow> f c)"

text \<open>
  \<open>(actualConfig?.serverUrl || process.env.ACTUAL_SERVER_URL || '').trim()\<close>
\<close>

definition server_url :: "environment \<Rightarrow> request \<Rightarrow> string" where
  "server_url env req =
     trim (first_text (config_field (actualConfig req) serverUrl) (ACTUAL_SERVER_URL env))"

text \<open>\<open>serverUrl.replace(/\/$/, '')\<close>\<close>

definition strip_slash :: "string \<Rightarrow> string" where
  "strip_slash s = (if s \<noteq> [] \<and> last s = CHR ''/'' then butlast s else s)"

definition quoted :: "string \<Rightarrow> string" where
  "quoted g = [CHR 0x27] @ g @ [CHR 0x27]"

text \<open>
  The two error texts that name a group: \<^verbatim>\<open>`Geen account gekoppeld voor groep '${group}'.`\<close>
  and \<^verbatim>\<open>`Import naar Actual mislukt voor groep '${group}'.`\<close>
\<close>

definition missing_account_error :: "string \<Rightarrow> string" where
  "missing_account_error g = ''Geen account gekoppeld voor groep '' @ quoted g @ ''.''"

definition import_failed_error :: "string \<Rightarrow> string" where
  "import_failed_error g = ''Import naar Actual mislukt voor groep '' @ quoted g @ ''.''"

definition make_call :: "environment \<Rightarrow> request \<Rightarrow> string \<Rightarrow> row list \<Rightarrow> ledger_call" where
  "make_call env req g groupRowsData =
     \<lparr>call_url = strip_slash (server_url env req) @ ''/api/import-transactions'',
      call_password = first_text (config_field (actualConfig req) password) (ACTUAL_PASSWORD env),
      call_budgetId = first_text (config_field (actualConfig req) budgetId) (ACTUAL_BUDGET_ID env),
      call_accountId = resolve_account (accountMapping req) g,
      call_transactions = filter passes_validation (normalized_group req groupRowsData)\<rparr>"

text \<open>
  The loop over \<open>Object.entries(grouped)\<close>, with the results built so far and the calls
  made so far:
  \<^verbatim>\<open>
  for (const [group, groupRowsData] of Object.entries(grouped)) {
    const accountId = accountMapping?.[group] || null;
    ...
    result.push({ group, accountId, transactionCount, invalidCount, preview });
    if (dryRun || process.env.MOCK_ACTUAL === 'true') { continue; }
    ...
    if (!serverUrl) { res.status(400).json({ error: ... }); return; }
    if (!accountId) { res.status(400).json({ error: ... }); return; }
    const response = await fetch(...);
    if (!response.ok) {
      const detail = await response.text();
      res.status(502).json({ error: ..., details: detail });
      return;
    }
  }
  res.json({ dryRun, groups: result, totalTransactions: ..., totalInvalid: ... });
  \<close>
\<close>

fun import_loop ::
  "environment \<Rightarrow> ledger \<Rightarrow> request \<Rightarrow> bool \<Rightarrow> row list obj \<Rightarrow> group_result list
     \<Rightarrow> ledger_call list \<Rightarrow> outcome \<times> ledger_call list" where
  "import_loop env led req dry [] result calls =
     (Json200 \<lparr>result_dryRun = dry, groups = result,
        totalTransactions = foldl (\<lambda>sum item. sum + transactionCount item) 0 result,
        totalInvalid = foldl (\<lambda>sum item. sum + invalidCount item) 0 result\<rparr>, calls)"
| "import_loop env led req dry ((g, groupRowsData) # rest) result calls =
     (if dry \<or> MOCK_ACTUAL env = Some ''true''
      then import_loop env led req dry rest
             (result @ [make_group_result req g groupRowsData]) calls
      else if server_url env req = []
      then (Json400 ''ACTUAL_SERVER_URL ontbreekt voor import.'', calls)
      else if \<not> truthy (resolve_account (accountMapping req) g)
      then (Json400 (missing_account_error g), calls)
      else (case led calls (make_call env req g groupRowsData) of
              Rejected \<Rightarrow>
                (Uncaught FetchRejected, calls @ [make_call env req g groupRowsData])
            | ResponseNotOk detail \<Rightarrow>
                (Json502 (import_failed_error g) detail,
                 calls @ [make_call env req g groupRowsData])
            | ResponseOk \<Rightarrow>
                import_loop env led req dry rest
                  (result @ [make_group_result req g groupRowsData])
                  (calls @ [make_call env req g groupRowsData])))"

text \<open>
  \<^verbatim>\<open>
  const { rows, mapping, groupByColumn, accountMapping, dryRun = true, actualConfig }
    = req.body || {};
  if (!Array.isArray(rows) || !mapping) {
    res.status(400).json({ error: 'rows en mapping zijn verplicht.' });
    return;
  }
  const grouped = groupRows(rows, groupByColumn);
  \<close>
  The default of \<open>dryRun\<close> applies when the field is absent.
\<close>

definition effective_dryRun :: "request \<Rightarrow> bool" where
  "effective_dryRun req = (case dryRun req of None \<Rightarrow> True | Some b \<Rightarrow> b)"

definition import_handler :: "environment \<Rightarrow> ledger \<Rightarrow> request \<Rightarrow> outcome \<times> ledger_call list" where
  "import_handler env led req =
     (case rows req of
        None \<Rightarrow> (Json400 ''rows en mapping zijn verplicht.'', [])
      | Some rs \<Rightarrow>
          (case mapping req of
             None \<Rightarrow> (Json400 ''rows en mapping zijn verplicht.'', [])
           | Some m \<Rightarrow>
               (case groupRows rs (groupByColumn req) of
                  Inl e \<Rightarrow> (Uncaught e, [])
                | Inr grouped \<Rightarrow>
                    import_loop env led req (effective_dryRun req) (Object_entries grouped) [] [])))"

section \<open>Notions used to state the properties\<close>

text \<open>The groups of a request in the order in which the handler's loop visits them.\<close>

definition enumerated_groups :: "request \<Rightarrow> row list obj" where
  "enumerated_groups req =
     (case rows req of
        None \<Rightarrow> []
      | Some rs \<Rightarrow>
          (case groupRows rs (groupByColumn req) of
             Inl e \<Rightarrow> []
           | Inr grouped \<Rightarrow> Object_entries grouped))"

text \<open>The ledger call that the loop builds for one enumerated group.\<close>

definition group_call :: "environment \<Rightarrow> request \<Rightarrow> string \<times> row list \<Rightarrow> ledger_call" where
  "group_call env req p = make_call env req (fst p) (snd p)"

text \<open>
  Every group of a list has a resolved account and the ledger server answers its call
  with \<open>ok\<close>, the calls being made one after the other after \<open>calls\<close>.
\<close>

fun groups_succeed ::
  "environment \<Rightarrow> ledger \<Rightarrow> request \<Rightarrow> ledger_call list \<Rightarrow> row list obj \<Rightarrow> bool" where
  "groups_succeed env led req calls [] = True"
| "groups_succeed env led req calls (p # es) =
     (truthy (resolve_account (accountMapping req) (fst p))
      \<and> led calls (group_call env req p) = ResponseOk
      \<and> groups_succeed env led req (calls @ [group_call env req p]) es)"

text \<open>
  The validator as the specification words it: a transaction is valid iff its amount
  is not none and its date is a non-empty text.
\<close>

definition isValid :: "transaction \<Rightarrow> bool" where
  "isValid t = (amount t \<noteq> None \<and> (case date t of Str s \<Rightarrow> s \<noteq> [] | _ \<Rightarrow> False))"

text \<open>The handler answered with the success summary.\<close>

fun is_success :: "outcome \<Rightarrow> bool" where
  "is_success (Json200 r) = True"
| "is_success (Json400 e) = False"
| "is_success (Json502 e d) = False"
| "is_success (Uncaught x) = False"

text \<open>The success summary of an answer, when it has one.\<close>

fun summary :: "outcome \<Rightarrow> import_result option" where
  "summary (Json200 r) = Some r"
| "summary (Json400 e) = None"
| "summary (Json502 e d) = None"
| "summary (Uncaught x) = None"

text \<open>The first occurrences of the elements of a list, in order.\<close>

fun first_seen :: "'a list \<Rightarrow> 'a list" where
  "first_seen [] = []"
| "first_seen (x # xs) = x # filter (\<lambda>y. y \<noteq> x) (first_seen xs)"

section \<open>Example data\<close>

text \<open>A rule as the frontend's \<open>getInitialRule\<close> builds it, for one column.\<close>

definition direct :: "string \<Rightarrow> rule" where
  "direct c = \<lparr>rule_type = ''direct'', column = c, columns = [], separator = Some '' ''\<rparr>"

definition example_mapping :: mapping_config where
  "example_mapping =
     [(''date'', Some (direct ''Datum'')), (''amount'', Some (direct ''Bedrag'')),
      (''payee'', Some (direct ''Naam'')), (''notes'', None)]"

text \<open>Three rows for three accounts; the second row has no date.\<close>

definition example_row_A :: row where
  "example_row_A =
     [(''Datum'', ''01-01-2024''), (''Bedrag'', ''12,50''), (''Naam'', ''X''), (''Rekening'', ''A'')]"

definition example_row_B :: row where
  "example_row_B =
     [(''Datum'', []), (''Bedrag'', ''5,00''), (''Naam'', ''Y''), (''Rekening'', ''B'')]"

definition example_row_C :: row where
  "example_row_C =
     [(''Datum'', ''03-01-2024''), (''Bedrag'', ''-7,25''), (''Naam'', ''Z''), (''Rekening'', ''C'')]"

definition example_rows :: "row list" where
  "example_rows = [example_row_A, example_row_B, example_row_C]"

text \<open>
  Four rows whose grouping values are \<open>NL01\<close> (with spaces around it), the empty text,
  \<open>NL01\<close> and the text \<open>(leeg)\<close>.
\<close>

definition sentinel_rows :: "row list" where
  "sentinel_rows =
     [[(''Rekening'', '' NL01 '')], [(''Rekening'', [])], [(''Rekening'', ''NL01'')],
      [(''Rekening'', ''(leeg)'')]]"

text \<open>Five rows whose grouping values are \<open>b\<close>, \<open>20\<close>, \<open>a\<close>, \<open>3\<close> and \<open>b\<close>.\<close>

definition numbered_rows :: "row list" where
  "numbered_rows =
     [[(''Rekening'', ''b'')], [(''Rekening'', ''20'')], [(''Rekening'', ''a'')],
      [(''Rekening'', ''3'')], [(''Rekening'', ''b'')]]"

definition example_config :: actual_config where
  "example_config =
     \<lparr>serverUrl = Some ''https://actual.example.com/'', password = Some ''secret'',
      budgetId = Some ''budget-main''\<rparr>"

definition example_request :: "bool option \<Rightarrow> string obj option \<Rightarrow> request" where
  "example_request dry am =
     \<lparr>rows = Some example_rows, mapping = Some example_mapping,
      groupByColumn = Some ''Rekening'', accountMapping = am, dryRun = dry,
      actualConfig = Some example_config\<rparr>"

definition all_accounts :: "string obj" where
  "all_accounts = [(''A'', ''acc-checking''), (''B'', ''acc-savings''), (''C'', ''acc-joint'')]"

definition partial_accounts :: "string obj" where
  "partial_accounts = [(''A'', ''acc-checking''), (''B'', [])]"

definition plain_environment :: environment where
  "plain_environment =
     \<lparr>MOCK_ACTUAL = None, ACTUAL_SERVER_URL = None, ACTUAL_PASSWORD = None,
      ACTUAL_BUDGET_ID = None\<rparr>"

definition mock_environment :: environment where
  "mock_environment =
     \<lparr>MOCK_ACTUAL = Some ''true'', ACTUAL_SERVER_URL = None, ACTUAL_PASSWORD = None,
      ACTUAL_BUDGET_ID = None\<rparr>"

definition ledger_accepts :: ledger where
  "ledger_accepts calls c = ResponseOk"

definition ledger_down :: ledger where
  "ledger_down calls c = Rejected"

definition ledger_rejects_second :: ledger where
  "ledger_rejects_second calls c =
     (if length calls = 1 then ResponseNotOk ''account is closed'' else ResponseOk)"


section \<open>Evaluating the model on concrete inputs\<close>

lemmas string_eval = trim_def is_space_def is_digit_def digits_value_def digit_value_def

lemmas object_eval = get_prop_def set_prop_def Object_entries_def is_array_index_def
  object_prototype_keys_def native_text_def

lemmas amount_eval = parseAmount_def normalized_amount_text_def Number_def
  unsigned_decimal_def round_overflow_def

lemmas grouping_eval = groupRows_def add_row_def group_key_def Let_def

lemmas mapper_eval = mapRows_def mapRow_def apply_rule_def direct_def

section \<open>Amount normalizer: the specified vectors\<close>

text \<open>
  C5: \<open>parseAmount\<close> on the four vectors of the specification. The first three give the
  specified results. On \<open>abc\<close> the strip step leaves the empty text, \<open>Number('')\<close> is
  0 and not NaN, and the function returns the number 0 where the specification asks
  for none.
\<close>

theorem parseAmount_vectors:
  "parseAmount (Str ''1.234,56'') = Some (123456 / 100)
   \<and> parseAmount (Str ''-12,50'') = Some (- (1250 / 100))
   \<and> parseAmount (Str []) = None
   \<and> parseAmount (Str ''abc'') = Some 0"
  by (simp add: amount_eval string_eval)

section \<open>Grouping engine\<close>

lemma reduce_rows_raises: "reduce_rows c acc rs = Inl e \<Longrightarrow> e = TypeError"
  by (induction rs arbitrary: acc)
    (auto simp: add_row_def Let_def split: sum.splits option.splits if_splits)

lemma groupRows_raises: "groupRows rs c = Inl e \<Longrightarrow> e = TypeError"
  by (auto simp: groupRows_def split: option.splits if_splits dest: reduce_rows_raises)

section \<open>Grouping engine: order of the groups\<close>

lemma keys_put_own:
  "map fst (put_own acc k v) = (if k \<in> set (map fst acc) then map fst acc else map fst acc @ [k])"
  by (induction acc) (force simp: image_iff)+

lemma map_of_put_own:
  "map_of (put_own acc k v) k' = (if k' = k then Some v else map_of acc k')"
  by (induction acc) auto

lemma keys_add_row:
  assumes "add_row c acc r = Inr acc'"
  shows "map fst acc' =
           (if group_key c r \<in> set (map fst acc) then map fst acc
            else map fst acc @ [group_key c r])"
proof (cases "map_of acc (group_key c r)")
  case None
  then have "group_key c r \<notin> set (map fst acc)" by (simp add: map_of_eq_None_iff)
  with None assms show ?thesis
    by (auto simp: add_row_def Let_def keys_put_own split: if_splits)
next
  case (Some members)
  then have "(group_key c r, members) \<in> set acc" by (rule map_of_SomeD)
  then have known: "group_key c r \<in> set (map fst acc)" by (force simp: image_iff)
  from assms Some have "acc' = put_own acc (group_key c r) (members @ [r])"
    by (simp add: add_row_def Let_def)
  with known have "map fst acc' = map fst acc" by (simp only: keys_put_own if_True)
  with known show ?thesis by (simp only: if_True)
qed

lemma filter_first_seen_Cons:
  "filter P (first_seen (x # xs)) =
     (if P x then x # filter (\<lambda>y. P y \<and> y \<noteq> x) (first_seen xs)
      else filter (\<lambda>y. P y \<and> y \<noteq> x) (first_seen xs))"
  by (simp add: conj_commute)

text \<open>The keys of the accumulator stay in place; new keys follow in first-seen order.\<close>

lemma keys_reduce_rows:
  assumes "reduce_rows c acc rs = Inr g"
  shows "map fst g =
           map fst acc @ filter (\<lambda>k. k \<notin> set (map fst acc)) (first_seen (map (group_key c) rs))"
  using assms
proof (induction rs arbitrary: acc)
  case Nil
  then show ?case by simp
next
  case (Cons r rs)
  from Cons.prems obtain acc' where step: "add_row c acc r = Inr acc'"
    and rest: "reduce_rows c acc' rs = Inr g"
    by (auto split: sum.splits)
  let ?k = "group_key c r"
  let ?seen = "first_seen (map (group_key c) rs)"
  show ?case
  proof (cases "?k \<in> set (map fst acc)")
    case True
    with keys_add_row [OF step] have same: "map fst acc' = map fst acc" by simp
    have "filter (\<lambda>k. k \<notin> set (map fst acc)) (filter (\<lambda>y. y \<noteq> ?k) ?seen)
            = filter (\<lambda>k. k \<notin> set (map fst acc)) ?seen"
      using True by (auto simp: filter_filter intro: filter_cong)
    with Cons.IH [OF rest] same True show ?thesis by simp
  next
    case False
    with keys_add_row [OF step] have new: "map fst acc' = map fst acc @ [?k]" by simp
    have "filter (\<lambda>k. k \<notin> set (map fst acc @ [?k])) ?seen
            = filter (\<lambda>k. k \<notin> set (map fst acc)) (filter (\<lambda>y. y \<noteq> ?k) ?seen)"
      by (auto simp: filter_filter intro: filter_cong)
    with Cons.IH [OF rest] new False show ?thesis by simp
  qed
qed

lemma map_insort_key:
  "map g (insort_key (\<lambda>p. f (g p)) x xs) = insort_key f (g x) (map g xs)"
  by (induction xs) auto

lemma map_sort_key:
  "map g (sort_key (\<lambda>p. f (g p)) xs) = sort_key f (map g xs)"
  by (induction xs) (simp_all add: map_insort_key)

lemma keys_Object_entries:
  "map fst (Object_entries ob) =
     sort_key digits_value (filter is_array_index (map fst ob))
     @ filter (\<lambda>k. \<not> is_array_index k) (map fst ob)"
  by (simp add: Object_entries_def map_sort_key filter_map comp_def)

text \<open>
  C8, as stated, fails: of the two keys \<open>20\<close> and \<open>3\<close>, seen in this order, the
  enumeration gives \<open>3\<close> first.
\<close>

theorem numeric_keys_enumerated_first:
  "groupRows [[(''Rekening'', ''20'')], [(''Rekening'', ''3'')]] (Some ''Rekening'')
     = Inr [(''20'', [[(''Rekening'', ''20'')]]), (''3'', [[(''Rekening'', ''3'')]])]
   \<and> map fst (Object_entries
        [(''20'', [[(''Rekening'', ''20'')]]), (''3'', [[(''Rekening'', ''3'')]])])
     = [''3'', ''20'']
   \<and> first_seen (map (group_key ''Rekening'') [[(''Rekening'', ''20'')], [(''Rekening'', ''3'')]])
     = [''20'', ''3'']"
  by (simp add: grouping_eval object_eval string_eval)

text \<open>
  C8, amended: when \<open>groupRows\<close> returns, the enumeration of its result gives the keys
  that are array indices first, in ascending numeric order, and then the other keys in
  the order in which each was first seen in the input; and when no grouping column is
  given, the result is the one group \<open>all\<close> with all rows in their original order.
\<close>

theorem groups_enumeration_order:
  "(c \<noteq> [] \<and> groupRows rs (Some c) = Inr g \<longrightarrow>
      map fst (Object_entries g) =
        sort_key digits_value (filter is_array_index (first_seen (map (group_key c) rs)))
        @ filter (\<lambda>k. \<not> is_array_index k) (first_seen (map (group_key c) rs)))
   \<and> groupRows rs None = Inr [(''all'', rs)]
   \<and> groupRows rs (Some []) = Inr [(''all'', rs)]
   \<and> Object_entries [(''all'', rs)] = [(''all'', rs)]"
proof (intro conjI impI)
  assume "c \<noteq> [] \<and> groupRows rs (Some c) = Inr g"
  then have "reduce_rows c [] rs = Inr g" by (simp add: groupRows_def split: if_splits)
  from keys_reduce_rows [OF this]
  have "map fst g = first_seen (map (group_key c) rs)" by simp
  then show "map fst (Object_entries g) =
        sort_key digits_value (filter is_array_index (first_seen (map (group_key c) rs)))
        @ filter (\<lambda>k. \<not> is_array_index k) (first_seen (map (group_key c) rs))"
    by (simp add: keys_Object_entries)
next
  show "groupRows rs None = Inr [(''all'', rs)]" by (simp add: groupRows_def)
next
  show "groupRows rs (Some []) = Inr [(''all'', rs)]" by (simp add: groupRows_def)
next
  show "Object_entries [(''all'', rs)] = [(''all'', rs)]"
    by (simp add: Object_entries_def is_array_index_def is_digit_def)
qed

lemma numbered_rows_groups:
  "groupRows numbered_rows (Some ''Rekening'')
     = Inr [(''b'', [[(''Rekening'', ''b'')], [(''Rekening'', ''b'')]]),
            (''20'', [[(''Rekening'', ''20'')]]),
            (''a'', [[(''Rekening'', ''a'')]]),
            (''3'', [[(''Rekening'', ''3'')]])]"
  by (simp add: numbered_rows_def grouping_eval object_eval string_eval)

theorem groups_enumeration_order_witness:
  "map fst (Object_entries
      [(''b'', [[(''Rekening'', ''b'')], [(''Rekening'', ''b'')]]),
       (''20'', [[(''Rekening'', ''20'')]]),
       (''a'', [[(''Rekening'', ''a'')]]),
       (''3'', [[(''Rekening'', ''3'')]])])
     = [''3'', ''20'', ''b'', ''a'']
   \<and> first_seen (map (group_key ''Rekening'') numbered_rows) = [''b'', ''20'', ''a'', ''3'']"
proof -
  have seen: "first_seen (map (group_key ''Rekening'') numbered_rows) = [''b'', ''20'', ''a'', ''3'']"
    by (simp add: numbered_rows_def group_key_def object_eval string_eval)
  have order: "sort_key digits_value (filter is_array_index [''b'', ''20'', ''a'', ''3''])
      @ filter (\<lambda>k. \<not> is_array_index k) [''b'', ''20'', ''a'', ''3'']
      = [''3'', ''20'', ''b'', ''a'']"
    by (simp add: is_array_index_def string_eval)
  from groups_enumeration_order [of "''Rekening''" numbered_rows
      "[(''b'', [[(''Rekening'', ''b'')], [(''Rekening'', ''b'')]]),
        (''20'', [[(''Rekening'', ''20'')]]),
        (''a'', [[(''Rekening'', ''a'')]]),
        (''3'', [[(''Rekening'', ''3'')]])]"]
    numbered_rows_groups seen order
  show ?thesis by simp
qed

section \<open>Grouping engine: the groups when no key collides with an inherited member\<close>

text \<open>
  \<open>groupRows\<close> raises exactly when a grouping column is given and some row's key is
  the name of a member of \<open>Object.prototype\<close>.
\<close>

lemma reduce_rows_raises_iff:
  assumes "\<forall>k\<in>set (map fst acc). k \<notin> set object_prototype_keys"
  shows "(reduce_rows c acc rs = Inl TypeError)
           = (\<exists>r\<in>set rs. group_key c r \<in> set object_prototype_keys)"
  using assms
proof (induction rs arbitrary: acc)
  case Nil
  then show ?case by simp
next
  case (Cons r rs)
  let ?k = "group_key c r"
  show ?case
  proof (cases "?k \<in> set object_prototype_keys")
    case True
    with Cons.prems have "?k \<notin> set (map fst acc)" by blast
    then have "map_of acc ?k = None" by (simp add: map_of_eq_None_iff)
    with True have "add_row c acc r = Inl TypeError" by (simp add: add_row_def Let_def)
    with True show ?thesis by simp
  next
    case False
    then obtain acc' where step: "add_row c acc r = Inr acc'"
      by (cases "map_of acc ?k") (auto simp: add_row_def Let_def)
    from keys_add_row [OF step] Cons.prems False
    have "\<forall>k\<in>set (map fst acc'). k \<notin> set object_prototype_keys"
      by (auto split: if_splits)
    from Cons.IH [OF this] step False show ?thesis by simp
  qed
qed

lemma groupRows_raises_iff:
  "(groupRows rs col = Inl TypeError)
     = (\<exists>c. col = Some c \<and> c \<noteq> []
          \<and> (\<exists>r\<in>set rs. group_key c r \<in> set object_prototype_keys))"
  using reduce_rows_raises_iff [of "[]" _ rs]
  by (cases col) (auto simp: groupRows_def)

text \<open>
  C7: a row whose grouping value is the name of a member of \<open>Object.prototype\<close> makes
  \<open>groupRows\<close> raise a TypeError, so no partition of the rows is returned. (For all
  other inputs the result is a partition, see \<open>groupRows_partition\<close> below.)
\<close>

theorem groupRows_constructor_raises:
  "groupRows [[(''Naam'', ''Albert Heijn'')], [(''Naam'', ''constructor'')]] (Some ''Naam'')
     = Inl TypeError"
  by (simp add: grouping_eval object_eval string_eval)

text \<open>The rows of a group are the rows with its key, in their original order.\<close>

lemma members_add_row:
  assumes "add_row c acc r = Inr acc'"
  shows "map_of acc' k =
           (if k = group_key c r
            then Some ((case map_of acc k of None \<Rightarrow> [] | Some ms \<Rightarrow> ms) @ [r])
            else map_of acc k)"
  using assms
  by (auto simp: add_row_def Let_def map_of_put_own split: option.splits if_splits)

lemma members_reduce_rows:
  assumes "reduce_rows c acc rs = Inr g"
  shows "map_of g k =
           (case map_of acc k of
              Some ms \<Rightarrow> Some (ms @ filter (\<lambda>r. group_key c r = k) rs)
            | None \<Rightarrow>
                (if filter (\<lambda>r. group_key c r = k) rs = [] then None
                 else Some (filter (\<lambda>r. group_key c r = k) rs)))"
  using assms
proof (induction rs arbitrary: acc)
  case Nil
  then show ?case by (simp split: option.splits)
next
  case (Cons r rs)
  from Cons.prems obtain acc' where step: "add_row c acc r = Inr acc'"
    and rest: "reduce_rows c acc' rs = Inr g"
    by (auto split: sum.splits)
  show ?case
    unfolding Cons.IH [OF rest] members_add_row [OF step]
    by (simp split: option.splits)
qed

lemma distinct_first_seen: "distinct (first_seen xs)"
  by (induction xs) auto

lemma size_put_own_new:
  assumes "map_of acc k = None"
  shows "sum_list (map (\<lambda>p. length (snd p)) (put_own acc k v))
           = sum_list (map (\<lambda>p. length (snd p)) acc) + length v"
  using assms by (induction acc) (auto split: if_splits)

lemma size_put_own_known:
  assumes "map_of acc k = Some members"
  shows "sum_list (map (\<lambda>p. length (snd p)) (put_own acc k (members @ [r])))
           = Suc (sum_list (map (\<lambda>p. length (snd p)) acc))"
  using assms by (induction acc) (auto split: if_splits)

lemma size_add_row:
  assumes "add_row c acc r = Inr acc'"
  shows "sum_list (map (\<lambda>p. length (snd p)) acc') = Suc (sum_list (map (\<lambda>p. length (snd p)) acc))"
proof (cases "map_of acc (group_key c r)")
  case None
  with assms show ?thesis
    by (auto simp: add_row_def Let_def size_put_own_new split: if_splits)
next
  case (Some members)
  with assms show ?thesis
    by (auto simp: add_row_def Let_def size_put_own_known)
qed

lemma size_reduce_rows:
  assumes "reduce_rows c acc rs = Inr g"
  shows "sum_list (map (\<lambda>p. length (snd p)) g) = sum_list (map (\<lambda>p. length (snd p)) acc) + length rs"
  using assms
proof (induction rs arbitrary: acc)
  case Nil
  then show ?case by simp
next
  case (Cons r rs)
  from Cons.prems obtain acc' where step: "add_row c acc r = Inr acc'"
    and rest: "reduce_rows c acc' rs = Inr g"
    by (auto split: sum.splits)
  from Cons.IH [OF rest] size_add_row [OF step] show ?case by simp
qed

text \<open>
  When \<open>groupRows\<close> returns, its result is a partition of the rows: the keys are
  distinct, each group holds the rows with its key in their original order and is not
  empty, and the sizes of the groups add up to the number of rows.
\<close>

lemma groupRows_partition:
  assumes "groupRows rs (Some c) = Inr g" "c \<noteq> []"
  shows "distinct (map fst g)"
    and "(k, members) \<in> set g \<Longrightarrow>
           members = filter (\<lambda>r. group_key c r = k) rs \<and> members \<noteq> []"
    and "sum_list (map (\<lambda>p. length (snd p)) g) = length rs"
    and "r \<in> set rs \<Longrightarrow> (group_key c r, filter (\<lambda>r'. group_key c r' = group_key c r) rs) \<in> set g"
proof -
  from assms have run: "reduce_rows c [] rs = Inr g" by (simp add: groupRows_def)
  from keys_reduce_rows [OF run] show d: "distinct (map fst g)"
    by (simp add: distinct_first_seen)
  from size_reduce_rows [OF run] show "sum_list (map (\<lambda>p. length (snd p)) g) = length rs" by simp
  {
    assume "(k, members) \<in> set g"
    with d have "map_of g k = Some members" by simp
    with members_reduce_rows [OF run, of k]
    show "members = filter (\<lambda>r. group_key c r = k) rs \<and> members \<noteq> []"
      by (auto split: if_splits)
  }
  {
    assume "r \<in> set rs"
    then have "filter (\<lambda>r'. group_key c r' = group_key c r) rs \<noteq> []"
      by (auto simp: filter_empty_conv)
    with members_reduce_rows [OF run, of "group_key c r"]
    have "map_of g (group_key c r) = Some (filter (\<lambda>r'. group_key c r' = group_key c r) rs)"
      by simp
    then show "(group_key c r, filter (\<lambda>r'. group_key c r' = group_key c r) rs) \<in> set g"
      by (rule map_of_SomeD)
  }
qed

section \<open>Grouping engine: the reserved keys\<close>

lemma group_key_of_real_value:
  assumes "normalizeCellValue (get_prop r c) = v" and "v \<noteq> []" and "v \<noteq> ''(leeg)''"
  shows "group_key c r = v"
    and "(group_key c r' = v) = (normalizeCellValue (get_prop r' c) = v)"
  using assms by (auto simp: group_key_def Let_def)

text \<open>
  C9, as stated, fails: a row whose grouping value is the text \<open>(leeg)\<close> has a trimmed
  value that is not empty, gets the key of the rows with an empty value, and
  \<open>groupRows\<close> puts it into one group with such a row.
\<close>

theorem sentinel_collision:
  "normalizeCellValue (get_prop [(''Rekening'', ''(leeg)'')] ''Rekening'') = ''(leeg)''
   \<and> group_key ''Rekening'' [(''Rekening'', ''(leeg)'')] = ''(leeg)''
   \<and> group_key ''Rekening'' [(''Rekening'', [])] = ''(leeg)''
   \<and> groupRows [[(''Rekening'', ''(leeg)'')], [(''Rekening'', [])]] (Some ''Rekening'')
       = Inr [(''(leeg)'', [[(''Rekening'', ''(leeg)'')], [(''Rekening'', [])]])]"
  by (simp add: grouping_eval object_eval string_eval)

text \<open>
  C9, amended: when a grouping column is given and \<open>groupRows\<close> returns, a row whose
  trimmed grouping value is non-empty and is neither of the two reserved texts
  \<open>(leeg)\<close> and \<open>all\<close> is in the group whose key is that value; this group holds
  exactly the rows with the same trimmed value, and every group that holds the row has
  that key, which is neither reserved text.
\<close>

theorem real_value_keeps_its_group:
  assumes "groupRows rs (Some c) = Inr g" and "c \<noteq> []"
    and "r \<in> set rs"
    and "normalizeCellValue (get_prop r c) = v"
    and "v \<noteq> []" and "v \<noteq> ''(leeg)''" and "v \<noteq> ''all''"
  shows "(v, filter (\<lambda>r'. normalizeCellValue (get_prop r' c) = v) rs) \<in> set g
         \<and> (\<forall>k members. (k, members) \<in> set g \<and> r \<in> set members \<longrightarrow>
               k = v \<and> k \<noteq> ''(leeg)'' \<and> k \<noteq> ''all'')"
proof -
  have key: "group_key c r = v"
    using assms(4-6) by (rule group_key_of_real_value(1))
  have same: "(group_key c r' = v) = (normalizeCellValue (get_prop r' c) = v)" for r'
    using assms(4-6) by (rule group_key_of_real_value(2))
  from groupRows_partition(4) [OF assms(1,2,3)] key
  have "(v, filter (\<lambda>r'. group_key c r' = v) rs) \<in> set g" by simp
  then have own: "(v, filter (\<lambda>r'. normalizeCellValue (get_prop r' c) = v) rs) \<in> set g"
    by (simp add: same)
  have only: "k = v \<and> k \<noteq> ''(leeg)'' \<and> k \<noteq> ''all''"
    if held: "(k, members) \<in> set g \<and> r \<in> set members" for k members
  proof -
    from held groupRows_partition(2) [OF assms(1,2), of k members]
    have "members = filter (\<lambda>r'. group_key c r' = k) rs" by simp
    with held have "group_key c r = k" by auto
    with key assms(6,7) show ?thesis by simp
  qed
  from own only show ?thesis by blast
qed

lemma sentinel_rows_groups:
  "groupRows sentinel_rows (Some ''Rekening'')
     = Inr [(''NL01'', [[(''Rekening'', '' NL01 '')], [(''Rekening'', ''NL01'')]]),
            (''(leeg)'', [[(''Rekening'', [])], [(''Rekening'', ''(leeg)'')]])]"
  by (simp add: sentinel_rows_def grouping_eval object_eval string_eval)

theorem real_value_keeps_its_group_witness:
  "groupRows sentinel_rows (Some ''Rekening'')
     = Inr [(''NL01'', [[(''Rekening'', '' NL01 '')], [(''Rekening'', ''NL01'')]]),
            (''(leeg)'', [[(''Rekening'', [])], [(''Rekening'', ''(leeg)'')]])]
   \<and> normalizeCellValue (get_prop [(''Rekening'', '' NL01 '')] ''Rekening'') = ''NL01''
   \<and> filter (\<lambda>r'. normalizeCellValue (get_prop r' ''Rekening'') = ''NL01'') sentinel_rows
       = [[(''Rekening'', '' NL01 '')], [(''Rekening'', ''NL01'')]]
   \<and> (''NL01'', filter (\<lambda>r'. normalizeCellValue (get_prop r' ''Rekening'') = ''NL01'')
                    sentinel_rows)
       \<in> set [(''NL01'', [[(''Rekening'', '' NL01 '')], [(''Rekening'', ''NL01'')]]),
               (''(leeg)'', [[(''Rekening'', [])], [(''Rekening'', ''(leeg)'')]])]"
proof -
  let ?r = "[(''Rekening'', '' NL01 '')]"
  let ?g = "[(''NL01'', [[(''Rekening'', '' NL01 '')], [(''Rekening'', ''NL01'')]]),
             (''(leeg)'', [[(''Rekening'', [])], [(''Rekening'', ''(leeg)'')]])]"
  have member: "?r \<in> set sentinel_rows" by (simp add: sentinel_rows_def)
  have trimmed: "normalizeCellValue (get_prop ?r ''Rekening'') = ''NL01''"
    by (simp add: object_eval string_eval)
  have same: "filter (\<lambda>r'. normalizeCellValue (get_prop r' ''Rekening'') = ''NL01'') sentinel_rows
       = [[(''Rekening'', '' NL01 '')], [(''Rekening'', ''NL01'')]]"
    by (simp add: sentinel_rows_def object_eval string_eval)
  have "(''NL01'', filter (\<lambda>r'. normalizeCellValue (get_prop r' ''Rekening'') = ''NL01'')
                     sentinel_rows) \<in> set ?g"
    using real_value_keeps_its_group [OF sentinel_rows_groups _ member trimmed]
    by simp
  with sentinel_rows_groups trimmed same show ?thesis by simp
qed

section \<open>Field mapper: the fields of a mapped row\<close>

lemma set_prop_keys:
  "fst ` set (set_prop ob k v) = (if k = ''__proto__'' then fst ` set ob else insert k (fst ` set ob))"
proof -
  have "set (map fst (put_own ob k v)) = insert k (set (map fst ob))"
    by (simp only: keys_put_own) auto
  then show ?thesis by (simp add: set_prop_def)
qed

lemma map_of_set_prop:
  "map_of (set_prop ob k v) k' =
     (if k' = k \<and> k \<noteq> ''__proto__'' then Some v else map_of ob k')"
  by (simp add: set_prop_def map_of_put_own)

lemma map_fields_keys:
  "fst ` set (map_fields r es ob) = fst ` set ob \<union> (fst ` set es - {''__proto__''})"
proof (induction es arbitrary: ob)
  case Nil
  then show ?case by simp
next
  case (Cons e es)
  obtain k ru where e: "e = (k, ru)" by (cases e)
  have "fst ` set (map_fields r (e # es) ob)
          = fst ` set (set_prop ob k (apply_rule r ru)) \<union> (fst ` set es - {''__proto__''})"
    using Cons.IH e by simp
  also have "\<dots> = fst ` set ob \<union> (fst ` set (e # es) - {''__proto__''})"
  proof (cases "k = ''__proto__''")
    case True
    with e show ?thesis by (simp only: set_prop_keys if_True) auto
  next
    case False
    with e show ?thesis by (simp only: set_prop_keys if_False) auto
  qed
  finally show ?case .
qed

lemma map_fields_value:
  assumes "distinct (map fst es)" "(k, ru) \<in> set es" "k \<noteq> ''__proto__''"
  shows "map_of (map_fields r es ob) k = Some (apply_rule r ru)"
  using assms
proof (induction es arbitrary: ob)
  case Nil
  then show ?case by simp
next
  case (Cons e es)
  obtain k' ru' where e: "e = (k', ru')" by (cases e)
  show ?case
  proof (cases "(k, ru) \<in> set es")
    case True
    with Cons e show ?thesis by simp
  next
    case False
    with Cons.prems e have here: "k' = k" "ru' = ru" by auto
    from Cons.prems(1) e here have "k \<notin> fst ` set es" by simp
    then have "map_of (map_fields r es ob') k = map_of ob' k" for ob'
      by (induction es arbitrary: ob') (auto simp: map_of_set_prop)
    with e here Cons.prems(3) show ?thesis by (simp add: map_of_set_prop)
  qed
qed

lemma set_Object_entries: "set (Object_entries ob) = set ob"
  by (auto simp: Object_entries_def)

lemma distinct_Object_entries:
  assumes "distinct (map fst ob)"
  shows "distinct (map fst (Object_entries ob))"
  using assms by (simp add: keys_Object_entries) blast

text \<open>
  What \<open>mapRows\<close> returns for a mapping configuration (an object, so each key occurs
  once): a row whose fields are the keys of the mapping other than \<open>__proto__\<close>, each
  holding the text that its rule gives, the empty text for a rule that is \<open>null\<close>.
\<close>

lemma mapRow_fields:
  assumes "distinct (map fst m)"
  shows "fst ` set (mapRow r (Some m)) = fst ` set m - {''__proto__''}
         \<and> (\<forall>k ru. (k, ru) \<in> set m \<and> k \<noteq> ''__proto__'' \<longrightarrow>
               map_of (mapRow r (Some m)) k = Some (apply_rule r ru))
         \<and> apply_rule r None = []
         \<and> mapRow r None = []
         \<and> length (mapRows rs (Some m)) = length rs"
proof (intro conjI allI impI)
  show "fst ` set (mapRow r (Some m)) = fst ` set m - {''__proto__''}"
    by (simp add: mapRow_def map_fields_keys set_Object_entries)
next
  fix k ru
  assume "(k, ru) \<in> set m \<and> k \<noteq> ''__proto__''"
  with assms show "map_of (mapRow r (Some m)) k = Some (apply_rule r ru)"
    by (simp add: mapRow_def map_fields_value distinct_Object_entries set_Object_entries)
next
  show "apply_rule r None = []" by (simp add: apply_rule_def)
next
  show "mapRow r None = []" by (simp add: mapRow_def Object_entries_def)
next
  show "length (mapRows rs (Some m)) = length rs" by (simp add: mapRows_def)
qed

text \<open>
  C6: \<open>mapRows\<close> walks over the entries of the mapping, not over the four target
  fields. With the mapping of the specification's end-to-end example, which has no
  rule for \<open>notes\<close>, the mapped row has three fields and reading its \<open>notes\<close> gives
  \<open>undefined\<close>, where the claim asks for four fields with the empty text for \<open>notes\<close>.
  The frontend's \<open>applyMapping\<close> returns that row of four fields on the same input.
\<close>

theorem mapRows_without_notes_rule:
  "mapRows [[(''Datum'', ''01-01-2024''), (''Bedrag'', ''12,50''), (''Naam'', ''X'')]]
     (Some [(''date'', Some (direct ''Datum'')), (''amount'', Some (direct ''Bedrag'')),
            (''payee'', Some (direct ''Naam''))])
     = [[(''date'', ''01-01-2024''), (''amount'', ''12,50''), (''payee'', ''X'')]]
   \<and> get_prop [(''date'', ''01-01-2024''), (''amount'', ''12,50''), (''payee'', ''X'')] ''notes''
     = Undefined
   \<and> applyMapping [[(''Datum'', ''01-01-2024''), (''Bedrag'', ''12,50''), (''Naam'', ''X'')]]
       [(''date'', Some (direct ''Datum'')), (''amount'', Some (direct ''Bedrag'')),
        (''payee'', Some (direct ''Naam''))]
     = [[(''date'', ''01-01-2024''), (''amount'', ''12,50''), (''payee'', ''X''), (''notes'', [])]]"
  by (simp add: mapper_eval applyMapping_def TARGET_FIELDS_def object_eval string_eval)

section \<open>Import orchestrator: the loop\<close>

lemma import_loop_skips:
  "dry \<or> MOCK_ACTUAL env = Some ''true'' \<Longrightarrow>
   \<exists>r. import_loop env led req dry es result calls = (Json200 r, calls) \<and> result_dryRun r = dry"
  by (induction es arbitrary: result) auto

lemma import_loop_live_step:
  assumes "\<not> dry" "MOCK_ACTUAL env \<noteq> Some ''true''" "server_url env req \<noteq> []"
  shows "import_loop env led req dry (p # rest) result calls =
     (if \<not> truthy (resolve_account (accountMapping req) (fst p))
      then (Json400 (missing_account_error (fst p)), calls)
      else (case led calls (group_call env req p) of
              Rejected \<Rightarrow> (Uncaught FetchRejected, calls @ [group_call env req p])
            | ResponseNotOk detail \<Rightarrow>
                (Json502 (import_failed_error (fst p)) detail, calls @ [group_call env req p])
            | ResponseOk \<Rightarrow>
                import_loop env led req dry rest
                  (result @ [make_group_result req (fst p) (snd p)])
                  (calls @ [group_call env req p])))"
  using assms by (cases p) (auto simp: group_call_def split: fetch_result.splits)

lemma import_loop_no_url:
  assumes "\<not> dry" "MOCK_ACTUAL env \<noteq> Some ''true''" "server_url env req = []"
  shows "snd (import_loop env led req dry es result calls) = calls"
  using assms by (cases es) auto

declare import_loop.simps(2) [simp del]

text \<open>The calls made by the loop are the calls of the first groups, in order.\<close>

lemma import_loop_calls_prefix:
  "\<exists>n\<le>length es. snd (import_loop env led req dry es result calls)
      = calls @ map (group_call env req) (take n es)"
proof (cases "dry \<or> MOCK_ACTUAL env = Some ''true''")
  case True
  from import_loop_skips [OF True, of led req es result calls]
  have "snd (import_loop env led req dry es result calls)
          = calls @ map (group_call env req) (take 0 es)"
    by auto
  then show ?thesis by blast
next
  case False
  note live = this
  show ?thesis
  proof (cases "server_url env req = []")
    case True
    with live have "snd (import_loop env led req dry es result calls)
          = calls @ map (group_call env req) (take 0 es)"
      by (simp add: import_loop_no_url)
    then show ?thesis by blast
  next
    case False
    with live show ?thesis
    proof (induction es arbitrary: result calls)
      case Nil
      then show ?case by simp
    next
      case (Cons p rest)
      let ?c = "group_call env req p"
      let ?result = "result @ [make_group_result req (fst p) (snd p)]"
      show ?case
      proof (cases "truthy (resolve_account (accountMapping req) (fst p))
                    \<and> led calls ?c = ResponseOk")
        case True
        from Cons.IH [OF Cons.prems, of ?result "calls @ [?c]"]
        obtain n where n: "n \<le> length rest"
          "snd (import_loop env led req dry rest ?result (calls @ [?c]))
             = (calls @ [?c]) @ map (group_call env req) (take n rest)"
          by blast
        have "snd (import_loop env led req dry (p # rest) result calls)
                = calls @ map (group_call env req) (take (Suc n) (p # rest))"
          using Cons.prems True n(2) by (simp add: import_loop_live_step)
        with n(1) show ?thesis by (intro exI [of _ "Suc n"]) simp
      next
        case False
        show ?thesis
        proof (cases "truthy (resolve_account (accountMapping req) (fst p))")
          case True
          with False have "led calls ?c \<noteq> ResponseOk" by simp
          with True Cons.prems
          have "snd (import_loop env led req dry (p # rest) result calls)
                  = calls @ map (group_call env req) (take (Suc 0) (p # rest))"
            by (simp add: import_loop_live_step split: fetch_result.splits)
          then show ?thesis by (intro exI [of _ "Suc 0"]) simp
        next
          case False
          with Cons.prems
          have "snd (import_loop env led req dry (p # rest) result calls)
                  = calls @ map (group_call env req) (take 0 (p # rest))"
            by (simp add: import_loop_live_step)
          then show ?thesis by (intro exI [of _ 0]) simp
        qed
      qed
    qed
  qed
qed

text \<open>Groups that all succeed are passed one by one; the loop goes on behind them.\<close>

lemma import_loop_fast_forward:
  assumes "\<not> dry" "MOCK_ACTUAL env \<noteq> Some ''true''" "server_url env req \<noteq> []"
    and "groups_succeed env led req calls pre"
  shows "import_loop env led req dry (pre @ post) result calls =
         import_loop env led req dry post
           (result @ map (\<lambda>p. make_group_result req (fst p) (snd p)) pre)
           (calls @ map (group_call env req) pre)"
  using assms(4)
proof (induction pre arbitrary: result calls)
  case Nil
  then show ?case by simp
next
  case (Cons p pre)
  from Cons.prems have ok: "truthy (resolve_account (accountMapping req) (fst p))"
    "led calls (group_call env req p) = ResponseOk"
    "groups_succeed env led req (calls @ [group_call env req p]) pre"
    by simp_all
  from Cons.IH [OF ok(3)] ok(1,2) assms(1-3) show ?case
    by (simp add: import_loop_live_step)
qed

text \<open>A call that the ledger server does not answer with \<open>ok\<close> is the last call.\<close>

lemma import_loop_failure_last:
  assumes "import_loop env led req dry es result calls = (out, calls @ new)"
    and "j < length new"
    and "led (calls @ take j new) (new ! j) \<noteq> ResponseOk"
  shows "Suc j = length new \<and> j < length es \<and> new ! j = group_call env req (es ! j)
         \<and> (\<forall>d. led (calls @ take j new) (new ! j) = ResponseNotOk d \<longrightarrow>
               out = Json502 (import_failed_error (fst (es ! j))) d)
         \<and> (led (calls @ take j new) (new ! j) = Rejected \<longrightarrow> out = Uncaught FetchRejected)"
proof (cases "dry \<or> MOCK_ACTUAL env = Some ''true''")
  case True
  from import_loop_skips [OF True, of led req es result calls] assms(1)
  have "new = []" by auto
  with assms(2) show ?thesis by simp
next
  case False
  note live = this
  show ?thesis
  proof (cases "server_url env req = []")
    case True
    with live import_loop_no_url [of dry env req led es result calls] assms(1)
    have "new = []" by simp
    with assms(2) show ?thesis by simp
  next
    case False
    note url = this
    from assms show ?thesis
    proof (induction es arbitrary: result calls new j)
      case Nil
      then show ?case by simp
    next
      case (Cons p rest)
      let ?c = "group_call env req p"
      let ?result = "result @ [make_group_result req (fst p) (snd p)]"
      have step: "import_loop env led req dry (p # rest) result calls =
         (if \<not> truthy (resolve_account (accountMapping req) (fst p))
          then (Json400 (missing_account_error (fst p)), calls)
          else (case led calls ?c of
              Rejected \<Rightarrow> (Uncaught FetchRejected, calls @ [?c])
            | ResponseNotOk detail \<Rightarrow>
                (Json502 (import_failed_error (fst p)) detail, calls @ [?c])
            | ResponseOk \<Rightarrow> import_loop env led req dry rest ?result (calls @ [?c])))"
        using live url by (intro import_loop_live_step) simp_all
      show ?case
      proof (cases "truthy (resolve_account (accountMapping req) (fst p))")
        case False
        with step Cons.prems(1) have "new = []" by simp
        with Cons.prems(2) show ?thesis by simp
      next
        case True
        note acct = this
        show ?thesis
        proof (cases "led calls ?c")
          case Rejected
          with step acct Cons.prems(1) have "new = [?c]" "out = Uncaught FetchRejected"
            by simp_all
          with Cons.prems(2) Rejected show ?thesis by simp
        next
          case (ResponseNotOk d)
          with step acct Cons.prems(1) have "new = [?c]"
            "out = Json502 (import_failed_error (fst p)) d"
            by simp_all
          with Cons.prems(2) ResponseNotOk show ?thesis by simp
        next
          case ResponseOk
          from step acct ResponseOk Cons.prems(1)
          have run: "import_loop env led req dry rest ?result (calls @ [?c]) = (out, calls @ new)"
            by simp
          from import_loop_calls_prefix [of rest env led req dry ?result "calls @ [?c]"] run
          obtain n where "calls @ new = (calls @ [?c]) @ map (group_call env req) (take n rest)"
            by auto
          then have new: "new = ?c # map (group_call env req) (take n rest)" by simp
          define new' where "new' = map (group_call env req) (take n rest)"
          from new have new_eq: "new = ?c # new'" by (simp add: new'_def)
          from run new_eq
          have run': "import_loop env led req dry rest ?result (calls @ [?c])
                        = (out, (calls @ [?c]) @ new')"
            by simp
          show ?thesis
          proof (cases j)
            case 0
            with Cons.prems(3) new_eq ResponseOk show ?thesis by simp
          next
            case (Suc j')
            from Cons.prems(2) Suc new_eq have j': "j' < length new'" by simp
            from Cons.prems(3) Suc new_eq
            have bad: "led ((calls @ [?c]) @ take j' new') (new' ! j') \<noteq> ResponseOk" by simp
            have idx: "(p # rest) ! j = rest ! j'" "new ! j = new' ! j'"
              "calls @ take j new = (calls @ [?c]) @ take j' new'"
              using Suc new_eq by simp_all
            from Cons.IH [OF run' j' bad]
            have ih: "Suc j' = length new'" "j' < length rest"
              "new' ! j' = group_call env req (rest ! j')"
              "\<forall>d. led ((calls @ [?c]) @ take j' new') (new' ! j') = ResponseNotOk d \<longrightarrow>
                 out = Json502 (import_failed_error (fst (rest ! j'))) d"
              "led ((calls @ [?c]) @ take j' new') (new' ! j') = Rejected \<longrightarrow>
                 out = Uncaught FetchRejected"
              by blast+
            have "Suc j = length new" "j < length (p # rest)"
              using ih(1,2) Suc new_eq by simp_all
            with ih(3-5) show ?thesis unfolding idx by blast
          qed
        qed
      qed
    qed
  qed
qed

section \<open>Import orchestrator: the handler\<close>

lemma import_handler_runs_loop:
  assumes "rows req = Some rs" "mapping req = Some m" "groupRows rs (groupByColumn req) = Inr grouped"
  shows "import_handler env led req =
           import_loop env led req (effective_dryRun req) (enumerated_groups req) [] []"
  using assms by (simp add: import_handler_def enumerated_groups_def)

lemma import_handler_no_loop:
  assumes "rows req = None \<or> mapping req = None \<or> (\<exists>rs e. rows req = Some rs \<and> groupRows rs (groupByColumn req) = Inl e)"
  shows "snd (import_handler env led req) = []
         \<and> (fst (import_handler env led req) = Json400 ''rows en mapping zijn verplicht.''
            \<or> fst (import_handler env led req) = Uncaught TypeError)"
  using assms
  by (auto simp: import_handler_def split: option.splits sum.splits dest: groupRows_raises)

lemma import_handler_cases:
  obtains (no_loop) "snd (import_handler env led req) = []"
      "fst (import_handler env led req) = Json400 ''rows en mapping zijn verplicht.''
       \<or> fst (import_handler env led req) = Uncaught TypeError"
  | (loop) "import_handler env led req =
           import_loop env led req (effective_dryRun req) (enumerated_groups req) [] []"
      "rows req \<noteq> None" "mapping req \<noteq> None"
proof (cases "rows req")
  case None
  with import_handler_no_loop [of req env led] no_loop show ?thesis by blast
next
  case (Some rs)
  note rs = this
  show ?thesis
  proof (cases "mapping req")
    case None
    with import_handler_no_loop [of req env led] no_loop show ?thesis by blast
  next
    case (Some m)
    note m = this
    show ?thesis
    proof (cases "groupRows rs (groupByColumn req)")
      case (Inl e)
      with rs import_handler_no_loop [of req env led] no_loop show ?thesis by blast
    next
      case (Inr grouped)
      with rs m import_handler_runs_loop [of req rs m grouped env led] loop show ?thesis
        by simp
    qed
  qed
qed

lemma import_handler_skips:
  assumes "effective_dryRun req"
  shows "snd (import_handler env led req) = []
         \<and> (\<forall>e d. fst (import_handler env led req) \<noteq> Json502 e d)
         \<and> fst (import_handler env led req) \<noteq> Uncaught FetchRejected
         \<and> (\<forall>r. fst (import_handler env led req) = Json200 r \<longrightarrow> result_dryRun r)"
proof (cases rule: import_handler_cases [of env led req])
  case no_loop
  then show ?thesis by auto
next
  case loop
  from assms obtain r where
    "import_loop env led req (effective_dryRun req) (enumerated_groups req) [] [] = (Json200 r, [])"
    "result_dryRun r = effective_dryRun req"
    using import_loop_skips [of "effective_dryRun req" env led req "enumerated_groups req" "[]" "[]"]
    by auto
  with loop(1) assms show ?thesis by simp
qed

lemma import_handler_loop:
  assumes "mapping req \<noteq> None" "enumerated_groups req \<noteq> []"
  shows "import_handler env led req =
           import_loop env led req (effective_dryRun req) (enumerated_groups req) [] []"
proof -
  from assms have "\<exists>rs m grouped. rows req = Some rs \<and> mapping req = Some m
      \<and> groupRows rs (groupByColumn req) = Inr grouped"
    by (auto simp: enumerated_groups_def split: option.splits sum.splits)
  then show ?thesis
    using import_handler_runs_loop [of req _ _ _ env led] by auto
qed

lemma import_handler_dry_succeeds:
  assumes "effective_dryRun req \<or> MOCK_ACTUAL env = Some ''true''"
    and "mapping req \<noteq> None" "enumerated_groups req \<noteq> []"
  shows "is_success (fst (import_handler env led req)) \<and> snd (import_handler env led req) = []"
  using import_loop_skips [OF assms(1), of led req "enumerated_groups req" "[]" "[]"]
    import_handler_loop [OF assms(2,3), of env led]
  by auto

section \<open>The example request\<close>

lemma example_groups:
  "enumerated_groups (example_request dry am) =
     [(''A'', [example_row_A]), (''B'', [example_row_B]), (''C'', [example_row_C])]"
  by (simp add: enumerated_groups_def example_request_def example_rows_def example_row_A_def
      example_row_B_def example_row_C_def grouping_eval object_eval string_eval)

lemma example_has_mapping: "mapping (example_request dry am) \<noteq> None"
  by (simp add: example_request_def)

lemma example_dryRun: "dryRun (example_request dry am) = dry"
  by (simp add: example_request_def)

lemma example_server_url:
  "server_url plain_environment (example_request dry am) = ''https://actual.example.com/''"
  by (simp add: server_url_def example_request_def example_config_def plain_environment_def
      first_text_def config_field_def string_eval)

lemma example_resolved_accounts:
  "resolve_account (accountMapping (example_request dry (Some all_accounts))) ''A'' = Str ''acc-checking''"
  "resolve_account (accountMapping (example_request dry (Some all_accounts))) ''B'' = Str ''acc-savings''"
  "resolve_account (accountMapping (example_request dry (Some all_accounts))) ''C'' = Str ''acc-joint''"
  by (simp_all add: example_request_def all_accounts_def resolve_account_def object_eval)

lemma example_second_group_invalid:
  "filter isValid (normalized_group (example_request dry am) [example_row_B]) = []"
  by (simp add: isValid_def normalized_group_def normalize_def example_request_def
      example_row_B_def example_mapping_def mapper_eval object_eval string_eval)

section \<open>Import orchestrator: dry-run\<close>

text \<open>
  C1: a request with \<open>dryRun\<close> set is answered without any call to the ledger server,
  whatever the rows, the mapping, the grouping column and the account mapping are, and
  the answer is neither the 502 of a refused import nor the exception of a failed
  \<open>fetch\<close>.
\<close>

theorem dry_run_never_calls_ledger:
  assumes "dryRun req = Some True"
  shows "snd (import_handler env led req) = []
         \<and> (\<forall>e d. fst (import_handler env led req) \<noteq> Json502 e d)
         \<and> fst (import_handler env led req) \<noteq> Uncaught FetchRejected"
  using assms import_handler_skips [of req env led] by (simp add: effective_dryRun_def)

theorem dry_run_never_calls_ledger_witness:
  "dryRun (example_request (Some True) None) = Some True
   \<and> snd (import_handler plain_environment ledger_down (example_request (Some True) None)) = []
   \<and> is_success (fst (import_handler plain_environment ledger_down (example_request (Some True) None)))"
  using dry_run_never_calls_ledger
    [of "example_request (Some True) None" plain_environment ledger_down]
    import_handler_dry_succeeds
    [of "example_request (Some True) None" plain_environment ledger_down]
  by (simp add: example_dryRun example_has_mapping example_groups effective_dryRun_def)

text \<open>
  C10: a request without the \<open>dryRun\<close> field is handled as a dry-run: no call to the
  ledger server is made, and a success summary, when one is returned, has
  \<open>dryRun = true\<close>.
\<close>

theorem absent_dryRun_defaults_to_dry_run:
  assumes "dryRun req = None"
  shows "snd (import_handler env led req) = []
         \<and> (\<forall>r. fst (import_handler env led req) = Json200 r \<longrightarrow> result_dryRun r = True)
         \<and> (\<forall>e d. fst (import_handler env led req) \<noteq> Json502 e d)
         \<and> fst (import_handler env led req) \<noteq> Uncaught FetchRejected"
  using assms import_handler_skips [of req env led] by (simp add: effective_dryRun_def)

theorem absent_dryRun_defaults_to_dry_run_witness:
  "dryRun (example_request None (Some all_accounts)) = None
   \<and> snd (import_handler plain_environment ledger_accepts (example_request None (Some all_accounts))) = []
   \<and> map_option result_dryRun
         (summary (fst (import_handler plain_environment ledger_accepts
                          (example_request None (Some all_accounts))))) = Some True"
proof -
  let ?run = "import_handler plain_environment ledger_accepts (example_request None (Some all_accounts))"
  have absent: "dryRun (example_request None (Some all_accounts)) = None"
    by (simp add: example_dryRun)
  have "is_success (fst ?run)"
    using import_handler_dry_succeeds
      [of "example_request None (Some all_accounts)" plain_environment ledger_accepts]
    by (simp add: example_dryRun example_has_mapping example_groups effective_dryRun_def)
  then obtain r where r: "fst ?run = Json200 r" by (cases "fst ?run") simp_all
  from absent_dryRun_defaults_to_dry_run [OF absent, of plain_environment ledger_accepts] r absent
  show ?thesis by simp
qed

section \<open>Import orchestrator: live mode\<close>

text \<open>
  When the ledger server does not answer the call of index \<open>i\<close> with \<open>ok\<close>, that call
  is the last one made, it is the call of the group of index \<open>i\<close>, and the answer
  carries no group results: for a response that is not \<open>ok\<close> it is the 502 answer that
  names the group and forwards the detail; when \<open>fetch\<close> itself is rejected it is the
  uncaught exception.
\<close>

lemma ledger_failure_aborts:
  assumes "import_handler env led req = (out, calls)"
    and "i < length calls"
    and "led (take i calls) (calls ! i) \<noteq> ResponseOk"
  shows "Suc i = length calls
         \<and> i < length (enumerated_groups req)
         \<and> calls ! i = group_call env req (enumerated_groups req ! i)
         \<and> summary out = None
         \<and> (\<forall>d. led (take i calls) (calls ! i) = ResponseNotOk d \<longrightarrow>
               out = Json502 (import_failed_error (fst (enumerated_groups req ! i))) d)
         \<and> (led (take i calls) (calls ! i) = Rejected \<longrightarrow> out = Uncaught FetchRejected)"
proof (cases rule: import_handler_cases [of env led req])
  case no_loop
  with assms(1,2) show ?thesis by simp
next
  case loop
  with assms(1)
  have run: "import_loop env led req (effective_dryRun req) (enumerated_groups req) [] []
               = (out, [] @ calls)"
    by simp
  from assms(3) have bad: "led ([] @ take i calls) (calls ! i) \<noteq> ResponseOk" by simp
  from import_loop_failure_last [OF run assms(2) bad]
  have last: "Suc i = length calls" "i < length (enumerated_groups req)"
    "calls ! i = group_call env req (enumerated_groups req ! i)"
    "\<forall>d. led (take i calls) (calls ! i) = ResponseNotOk d \<longrightarrow>
       out = Json502 (import_failed_error (fst (enumerated_groups req ! i))) d"
    "led (take i calls) (calls ! i) = Rejected \<longrightarrow> out = Uncaught FetchRejected"
    by simp_all
  from assms(3) last(4,5) have "summary out = None"
    by (cases "led (take i calls) (calls ! i)") simp_all
  with last show ?thesis by blast
qed

lemma example_rejected_run:
  "import_handler plain_environment ledger_rejects_second
     (example_request (Some False) (Some all_accounts))
   = (Json502 (import_failed_error ''B'') ''account is closed'',
      [group_call plain_environment (example_request (Some False) (Some all_accounts))
         (''A'', [example_row_A]),
       group_call plain_environment (example_request (Some False) (Some all_accounts))
         (''B'', [example_row_B])])"
proof -
  let ?req = "example_request (Some False) (Some all_accounts)"
  have "import_handler plain_environment ledger_rejects_second ?req =
          import_loop plain_environment ledger_rejects_second ?req False (enumerated_groups ?req) [] []"
    by (simp add: import_handler_loop example_has_mapping example_groups example_dryRun
        effective_dryRun_def)
  also have "\<dots> = (Json502 (import_failed_error ''B'') ''account is closed'',
      [group_call plain_environment ?req (''A'', [example_row_A]),
       group_call plain_environment ?req (''B'', [example_row_B])])"
    by (simp add: example_groups import_loop.simps example_server_url group_call_def
        ledger_rejects_second_def)
      (simp add: example_request_def plain_environment_def all_accounts_def
        resolve_account_def object_eval)
  finally show ?thesis .
qed

lemma ledger_failure_aborts_example:
  "length (snd (import_handler plain_environment ledger_rejects_second
             (example_request (Some False) (Some all_accounts)))) = 2
   \<and> fst (import_handler plain_environment ledger_rejects_second
             (example_request (Some False) (Some all_accounts)))
       = Json502 (import_failed_error ''B'') ''account is closed''"
  by (simp add: example_rejected_run)

text \<open>
  C3: when the ledger server cannot be reached, \<open>fetch\<close> is rejected. The handler has
  no \<open>try\<close> around the call (the handlers of \<open>/api/actual/accounts\<close> and
  \<open>/api/actual/budgets\<close> catch the same failure and answer 502 with its message): it
  ends on the exception after the first call, no later call is made and no summary is
  returned, but no failure payload is sent either, where the claim says that the caller
  receives the failure payload.
\<close>

theorem rejected_fetch_is_uncaught:
  "ledger_down []
     (group_call plain_environment (example_request (Some False) (Some all_accounts))
        (''A'', [example_row_A])) = Rejected
   \<and> import_handler plain_environment ledger_down
        (example_request (Some False) (Some all_accounts))
       = (Uncaught FetchRejected,
          [group_call plain_environment (example_request (Some False) (Some all_accounts))
             (''A'', [example_row_A])])
   \<and> summary (Uncaught FetchRejected) = None"
proof -
  let ?req = "example_request (Some False) (Some all_accounts)"
  have "import_handler plain_environment ledger_down ?req =
          import_loop plain_environment ledger_down ?req False (enumerated_groups ?req) [] []"
    by (simp add: import_handler_loop example_has_mapping example_groups example_dryRun
        effective_dryRun_def)
  also have "\<dots> = (Uncaught FetchRejected,
      [group_call plain_environment ?req (''A'', [example_row_A])])"
    by (simp add: example_groups import_loop.simps example_server_url group_call_def
        ledger_down_def example_resolved_accounts)
      (simp add: plain_environment_def)
  finally show ?thesis by (simp add: ledger_down_def)
qed

lemma normalized_date:
  assumes "t \<in> set (normalized_group req rd)"
  shows "date t = Undefined \<or> (\<exists>s. date t = Str s)"
  using assms
  by (auto simp: normalized_group_def normalize_def get_prop_def object_prototype_keys_def
      split: option.splits)

lemma passes_validation_isValid:
  assumes "t \<in> set (normalized_group req rd)"
  shows "passes_validation t = isValid t"
  using normalized_date [OF assms] by (auto simp: passes_validation_def isValid_def)

lemma call_transactions_valid:
  "call_transactions (group_call env req p) = filter isValid (normalized_group req (snd p))"
  by (simp add: group_call_def make_call_def passes_validation_isValid cong: filter_cong)

text \<open>
  What the loop does once it has passed \<open>i\<close> groups and stands before the group of
  index \<open>i\<close>.
\<close>

lemma import_handler_reaches:
  assumes "dryRun req = Some False" "MOCK_ACTUAL env \<noteq> Some ''true''" "server_url env req \<noteq> []"
    and "mapping req \<noteq> None"
    and "i < length (enumerated_groups req)"
    and "groups_succeed env led req [] (take i (enumerated_groups req))"
  shows "import_handler env led req =
           import_loop env led req False
             (enumerated_groups req ! i # drop (Suc i) (enumerated_groups req))
             (map (\<lambda>p. make_group_result req (fst p) (snd p)) (take i (enumerated_groups req)))
             (map (group_call env req) (take i (enumerated_groups req)))"
proof -
  let ?gs = "enumerated_groups req"
  from assms(5) have "?gs \<noteq> []" by auto
  with assms(1,4) have "import_handler env led req = import_loop env led req False ?gs [] []"
    by (simp add: import_handler_loop effective_dryRun_def)
  also from assms(5) have "?gs = take i ?gs @ (?gs ! i # drop (Suc i) ?gs)"
    by (simp add: id_take_nth_drop [symmetric])
  then have "import_loop env led req False ?gs [] [] =
      import_loop env led req False (take i ?gs @ (?gs ! i # drop (Suc i) ?gs)) [] []"
    by simp
  also have "\<dots> = import_loop env led req False (?gs ! i # drop (Suc i) ?gs)
             ([] @ map (\<lambda>p. make_group_result req (fst p) (snd p)) (take i ?gs))
             ([] @ map (group_call env req) (take i ?gs))"
    using assms(2,3,6) by (intro import_loop_fast_forward) simp_all
  finally show ?thesis by simp
qed

text \<open>
  C2, as stated, fails: with \<open>MOCK_ACTUAL\<close> set to \<open>true\<close> a live request whose groups
  all have an account is answered with the success summary and no call is made.
\<close>

theorem mock_skips_ledger_call:
  "dryRun (example_request (Some False) (Some all_accounts)) = Some False
   \<and> map fst (enumerated_groups (example_request (Some False) (Some all_accounts)))
       = [''A'', ''B'', ''C'']
   \<and> resolve_account (accountMapping (example_request (Some False) (Some all_accounts))) ''A''
       = Str ''acc-checking''
   \<and> is_success (fst (import_handler mock_environment ledger_accepts
                        (example_request (Some False) (Some all_accounts))))
   \<and> snd (import_handler mock_environment ledger_accepts
             (example_request (Some False) (Some all_accounts))) = []"
proof -
  let ?req = "example_request (Some False) (Some all_accounts)"
  have run: "import_handler mock_environment ledger_accepts ?req =
          import_loop mock_environment ledger_accepts ?req False (enumerated_groups ?req) [] []"
    by (simp add: import_handler_loop example_has_mapping example_groups example_dryRun
        effective_dryRun_def)
  have "MOCK_ACTUAL mock_environment = Some ''true''" by (simp add: mock_environment_def)
  then have "\<exists>r. import_loop mock_environment ledger_accepts ?req False (enumerated_groups ?req) [] []
                = (Json200 r, [])"
    using import_loop_skips [of False mock_environment ledger_accepts ?req "enumerated_groups ?req" "[]" "[]"]
    by auto
  with run show ?thesis
    by (auto simp: example_groups)
      (simp_all add: example_request_def all_accounts_def resolve_account_def object_eval)
qed

text \<open>
  C2, amended: in live mode, with \<open>MOCK_ACTUAL\<close> not set to \<open>true\<close>, a server URL and a
  mapping given, when every group before the group of index \<open>i\<close> had an account and
  an \<open>ok\<close> answer from the ledger server and the group of index \<open>i\<close> has an account,
  then the call of index \<open>i\<close> is made; it carries the account of that group and exactly
  the transactions of that group that are valid (amount not none, date a non-empty
  text), also when there is none.
\<close>

theorem live_call_for_resolved_group:
  assumes "dryRun req = Some False"
    and "MOCK_ACTUAL env \<noteq> Some ''true''"
    and "server_url env req \<noteq> []"
    and "mapping req \<noteq> None"
    and "i < length (enumerated_groups req)"
    and "groups_succeed env led req [] (take i (enumerated_groups req))"
    and "truthy (resolve_account (accountMapping req) (fst (enumerated_groups req ! i)))"
  shows "i < length (snd (import_handler env led req))
         \<and> call_accountId (snd (import_handler env led req) ! i)
             = resolve_account (accountMapping req) (fst (enumerated_groups req ! i))
         \<and> call_transactions (snd (import_handler env led req) ! i)
             = filter isValid (normalized_group req (snd (enumerated_groups req ! i)))"
proof -
  let ?gs = "enumerated_groups req"
  let ?before = "map (group_call env req) (take i ?gs)"
  let ?c = "group_call env req (?gs ! i)"
  let ?results = "map (\<lambda>p. make_group_result req (fst p) (snd p)) (take i ?gs)"
  let ?next = "?results @ [make_group_result req (fst (?gs ! i)) (snd (?gs ! i))]"
  have len: "length ?before = i" using assms(5) by simp
  have "import_handler env led req =
          import_loop env led req False (?gs ! i # drop (Suc i) ?gs) ?results ?before"
    using assms(1-6) by (rule import_handler_reaches)
  also have "\<dots> = (case led ?before ?c of
              Rejected \<Rightarrow> (Uncaught FetchRejected, ?before @ [?c])
            | ResponseNotOk detail \<Rightarrow>
                (Json502 (import_failed_error (fst (?gs ! i))) detail, ?before @ [?c])
            | ResponseOk \<Rightarrow>
                import_loop env led req False (drop (Suc i) ?gs) ?next (?before @ [?c]))"
    using assms(2,3,7) by (simp add: import_loop_live_step)
  finally have run: "import_handler env led req = (case led ?before ?c of
              Rejected \<Rightarrow> (Uncaught FetchRejected, ?before @ [?c])
            | ResponseNotOk detail \<Rightarrow>
                (Json502 (import_failed_error (fst (?gs ! i))) detail, ?before @ [?c])
            | ResponseOk \<Rightarrow>
                import_loop env led req False (drop (Suc i) ?gs) ?next (?before @ [?c]))" .
  have "\<exists>more. snd (import_handler env led req) = (?before @ [?c]) @ more"
  proof (cases "led ?before ?c")
    case ResponseOk
    from import_loop_calls_prefix [of "drop (Suc i) ?gs" env led req False ?next "?before @ [?c]"]
    show ?thesis unfolding run ResponseOk by auto
  next
    case (ResponseNotOk d)
    show ?thesis unfolding run ResponseNotOk by simp
  next
    case Rejected
    show ?thesis unfolding run Rejected by simp
  qed
  then obtain more where calls: "snd (import_handler env led req) = ?before @ ?c # more"
    by auto
  from calls len have "i < length (snd (import_handler env led req))" by simp
  moreover from calls len have "snd (import_handler env led req) ! i = ?c"
    by (metis nth_append_length)
  moreover have "call_accountId ?c = resolve_account (accountMapping req) (fst (?gs ! i))"
    by (simp add: group_call_def make_call_def)
  ultimately show ?thesis by (simp add: call_transactions_valid)
qed

theorem live_call_for_resolved_group_witness:
  "groups_succeed plain_environment ledger_accepts
     (example_request (Some False) (Some all_accounts)) []
     (take 1 (enumerated_groups (example_request (Some False) (Some all_accounts))))
   \<and> 1 < length (snd (import_handler plain_environment ledger_accepts
                        (example_request (Some False) (Some all_accounts))))
   \<and> call_accountId (snd (import_handler plain_environment ledger_accepts
                        (example_request (Some False) (Some all_accounts))) ! 1)
       = Str ''acc-savings''
   \<and> call_transactions (snd (import_handler plain_environment ledger_accepts
                        (example_request (Some False) (Some all_accounts))) ! 1)
       = []"
proof -
  let ?req = "example_request (Some False) (Some all_accounts)"
  have live: "dryRun ?req = Some False" "mapping ?req \<noteq> None"
    by (simp_all add: example_request_def)
  have env: "MOCK_ACTUAL plain_environment \<noteq> Some ''true''"
    by (simp add: plain_environment_def)
  have url: "server_url plain_environment ?req \<noteq> []"
    by (simp add: example_server_url)
  have i: "1 < length (enumerated_groups ?req)"
    by (simp add: example_groups)
  have before: "groups_succeed plain_environment ledger_accepts ?req []
                  (take 1 (enumerated_groups ?req))"
    by (simp add: example_groups example_resolved_accounts ledger_accepts_def)
  have account: "truthy (resolve_account (accountMapping ?req) (fst (enumerated_groups ?req ! 1)))"
    by (simp add: example_groups example_resolved_accounts)
  from live_call_for_resolved_group [OF live(1) env url live(2) i before account] before
  show ?thesis
    by (simp add: example_groups example_resolved_accounts example_second_group_invalid)
qed

section \<open>Import orchestrator: a group without an account\<close>

text \<open>
  C4, as stated, fails: with \<open>MOCK_ACTUAL\<close> set to \<open>true\<close> a live request without any
  account mapping is answered with the success summary.
\<close>

theorem mock_accepts_missing_account:
  "dryRun (example_request (Some False) None) = Some False
   \<and> map fst (enumerated_groups (example_request (Some False) None)) = [''A'', ''B'', ''C'']
   \<and> resolve_account (accountMapping (example_request (Some False) None)) ''A'' = Null
   \<and> is_success (fst (import_handler mock_environment ledger_accepts
                        (example_request (Some False) None)))"
proof -
  let ?req = "example_request (Some False) None"
  have run: "import_handler mock_environment ledger_accepts ?req =
          import_loop mock_environment ledger_accepts ?req False (enumerated_groups ?req) [] []"
    by (simp add: import_handler_loop example_has_mapping example_groups example_dryRun
        effective_dryRun_def)
  have "MOCK_ACTUAL mock_environment = Some ''true''" by (simp add: mock_environment_def)
  then have "\<exists>r. import_loop mock_environment ledger_accepts ?req False (enumerated_groups ?req) [] []
                = (Json200 r, [])"
    using import_loop_skips [of False mock_environment ledger_accepts ?req "enumerated_groups ?req" "[]" "[]"]
    by auto
  with run show ?thesis
    by (auto simp: example_groups) (simp_all add: example_request_def resolve_account_def)
qed

text \<open>
  C4, amended: in live mode, with \<open>MOCK_ACTUAL\<close> not set to \<open>true\<close>, a server URL and a
  mapping given, when every group before the group of index \<open>i\<close> had an account and
  an \<open>ok\<close> answer from the ledger server and the group of index \<open>i\<close> has no account
  (no entry, or an empty one), then the request is answered with the 400 error that
  names that group, and the calls made are those of the \<open>i\<close> groups before it: none
  for that group and none for a later one. In dry-run mode the answer is never that
  error.
\<close>

theorem missing_account_aborts:
  "(dryRun req = Some False \<and> MOCK_ACTUAL env \<noteq> Some ''true'' \<and> server_url env req \<noteq> []
      \<and> mapping req \<noteq> None \<and> i < length (enumerated_groups req)
      \<and> groups_succeed env led req [] (take i (enumerated_groups req))
      \<and> \<not> truthy (resolve_account (accountMapping req) (fst (enumerated_groups req ! i)))
    \<longrightarrow> import_handler env led req
          = (Json400 (missing_account_error (fst (enumerated_groups req ! i))),
             map (group_call env req) (take i (enumerated_groups req))))
   \<and> (dryRun req \<noteq> Some False
    \<longrightarrow> (\<forall>g. fst (import_handler env led req) \<noteq> Json400 (missing_account_error g)))"
proof (intro conjI impI)
  let ?gs = "enumerated_groups req"
  assume live: "dryRun req = Some False \<and> MOCK_ACTUAL env \<noteq> Some ''true'' \<and> server_url env req \<noteq> []
      \<and> mapping req \<noteq> None \<and> i < length ?gs
      \<and> groups_succeed env led req [] (take i ?gs)
      \<and> \<not> truthy (resolve_account (accountMapping req) (fst (?gs ! i)))"
  then have "import_handler env led req =
          import_loop env led req False (?gs ! i # drop (Suc i) ?gs)
             (map (\<lambda>p. make_group_result req (fst p) (snd p)) (take i ?gs))
             (map (group_call env req) (take i ?gs))"
    by (intro import_handler_reaches) simp_all
  with live show "import_handler env led req
          = (Json400 (missing_account_error (fst (?gs ! i))), map (group_call env req) (take i ?gs))"
    by (simp add: import_loop_live_step)
next
  assume "dryRun req \<noteq> Some False"
  then have dry: "effective_dryRun req"
    by (cases "dryRun req") (simp_all add: effective_dryRun_def)
  show "\<forall>g. fst (import_handler env led req) \<noteq> Json400 (missing_account_error g)"
  proof (cases rule: import_handler_cases [of env led req])
    case no_loop
    then show ?thesis by (auto simp: missing_account_error_def)
  next
    case loop
    from import_loop_skips [of "effective_dryRun req" env led req "enumerated_groups req" "[]" "[]"] dry
    obtain r where "import_loop env led req (effective_dryRun req) (enumerated_groups req) [] []
                      = (Json200 r, [])"
      by auto
    with loop(1) show ?thesis by simp
  qed
qed

theorem missing_account_aborts_witness:
  "groups_succeed plain_environment ledger_accepts
     (example_request (Some False) (Some partial_accounts)) []
     (take 1 (enumerated_groups (example_request (Some False) (Some partial_accounts))))
   \<and> resolve_account (accountMapping (example_request (Some False) (Some partial_accounts))) ''B''
       = Null
   \<and> import_handler plain_environment ledger_accepts
        (example_request (Some False) (Some partial_accounts))
       = (Json400 (missing_account_error ''B''),
          [group_call plain_environment (example_request (Some False) (Some partial_accounts))
             (''A'', [example_row_A])])
   \<and> fst (import_handler plain_environment ledger_accepts
             (example_request (Some True) (Some partial_accounts)))
       \<noteq> Json400 (missing_account_error ''B'')"
proof -
  let ?req = "example_request (Some False) (Some partial_accounts)"
  have accounts: "resolve_account (accountMapping ?req) ''A'' = Str ''acc-checking''"
    "resolve_account (accountMapping ?req) ''B'' = Null"
    by (simp_all add: example_request_def partial_accounts_def resolve_account_def object_eval)
  have before: "groups_succeed plain_environment ledger_accepts ?req []
                  (take 1 (enumerated_groups ?req))"
    by (simp add: example_groups accounts ledger_accepts_def)
  have env: "MOCK_ACTUAL plain_environment \<noteq> Some ''true''"
    by (simp add: plain_environment_def)
  from missing_account_aborts [of ?req plain_environment 1 ledger_accepts]
    missing_account_aborts [of "example_request (Some True) (Some partial_accounts)"
      plain_environment 1 ledger_accepts]
    before accounts env
  show ?thesis
    by (simp add: example_groups example_dryRun example_has_mapping example_server_url)
qed

end
